theory Spec2Isabelle
  imports Complex_Main "HOL-Library.Log_Nat"
begin

section \<open>Decimal amounts\<close>

text \<open>
  The split calculator and the balance simplifier compute with the \<^verbatim>\<open>Decimal\<close> class of
  decimal.js (imported through the Prisma runtime). A \<^verbatim>\<open>Decimal\<close> is modelled as a rational
  number and \<^verbatim>\<open>plus\<close>, \<^verbatim>\<open>minus\<close>, \<^verbatim>\<open>times\<close>, \<^verbatim>\<open>dividedBy\<close>, \<^verbatim>\<open>abs\<close>, \<^verbatim>\<open>greaterThan\<close>,
  \<^verbatim>\<open>lessThan\<close>, \<^verbatim>\<open>lessThanOrEqualTo\<close> and \<^verbatim>\<open>Decimal.min\<close> as the exact operations on
  rationals. The library rounds every result to 20 significant digits; amounts and
  participant counts are taken to stay below that limit, and the values \<^verbatim>\<open>NaN\<close> and
  \<^verbatim>\<open>Infinity\<close> are not part of the model.
\<close>

type_synonym Decimal = rat

text \<open>
  The two rounding modes the source uses: \<^verbatim>\<open>Decimal.ROUND_DOWN\<close> (towards zero), passed
  explicitly by the equal and the percentage split, and \<^verbatim>\<open>ROUND_HALF_UP\<close> (to the nearest
  neighbour, a tie away from zero), the library's default, which \<^verbatim>\<open>toDecimalPlaces(2)\<close>
  without a mode takes.
\<close>

datatype rounding = ROUND_DOWN | ROUND_HALF_UP

definition toDecimalPlaces :: "nat \<Rightarrow> rounding \<Rightarrow> Decimal \<Rightarrow> Decimal" where
  "toDecimalPlaces dp rm x =
     (case rm of
        ROUND_DOWN \<Rightarrow>
          (if 0 \<le> x then of_int \<lfloor>x * 10 ^ dp\<rfloor> / 10 ^ dp
           else of_int \<lceil>x * 10 ^ dp\<rceil> / 10 ^ dp)
      | ROUND_HALF_UP \<Rightarrow>
          (if 0 \<le> x then of_int \<lfloor>x * 10 ^ dp + 1 / 2\<rfloor> / 10 ^ dp
           else of_int \<lceil>x * 10 ^ dp - 1 / 2\<rceil> / 10 ^ dp))"

text \<open>An amount of whole cents: a decimal with at most two fraction digits.\<close>

definition whole_cents :: "Decimal \<Rightarrow> bool" where
  "whole_cents x \<longleftrightarrow> of_int \<lfloor>x * 100\<rfloor> = x * 100"

section \<open>JavaScript numbers\<close>

text \<open>
  The field \<^verbatim>\<open>value?: number\<close> and the \<^verbatim>\<open>totalAmount: number\<close> of the validator are IEEE 754
  doubles. A number is modelled by the rational that its shortest decimal representation
  denotes: this is what the request body or a test writes (\<^verbatim>\<open>33.33\<close>) and what
  \<^verbatim>\<open>new Decimal(n)\<close> makes of it. A number and this rational lie on the same side of every
  double, so that the comparisons of the source with \<^verbatim>\<open>0\<close> and \<^verbatim>\<open>100\<close> are comparisons of
  the rationals.

  The sums that the source forms with \<^verbatim>\<open>+\<close> and \<^verbatim>\<open>-\<close> on numbers are sums of doubles.
  \<open>double_of x\<close> is the double nearest to \<open>x\<close>, a tie going to the even significand of 53
  bits, as an exact rational; \<open>js_add\<close> and \<open>js_sub\<close> round the exact result in the same
  way. The range of the exponent is not bounded: overflow, subnormal numbers, \<^verbatim>\<open>NaN\<close> and
  \<^verbatim>\<open>Infinity\<close> are not part of the model.
\<close>

definition round_half_even :: "rat \<Rightarrow> int" where
  "round_half_even m =
     (let f = \<lfloor>m\<rfloor>; r = m - of_int f
      in if r < 1 / 2 then f else if 1 / 2 < r then f + 1 else if even f then f else f + 1)"

text \<open>The exponent \<open>k\<close> with \<open>2 powi k \<le> x < 2 powi (k + 1)\<close>, for a positive \<open>x\<close>.\<close>

definition binary_exponent :: "rat \<Rightarrow> int" where
  "binary_exponent x =
     (let (p, q) = quotient_of x;
          k = bitlen p - bitlen q
      in if 2 powi k \<le> x then k else k - 1)"

definition double_of :: "rat \<Rightarrow> rat" where
  "double_of x =
     (if x = 0 then 0
      else let e = binary_exponent \<bar>x\<bar> - 52
           in of_int (round_half_even (x / 2 powi e)) * 2 powi e)"

definition js_add :: "rat \<Rightarrow> rat \<Rightarrow> rat" where
  "js_add a b = double_of (a + b)"

definition js_sub :: "rat \<Rightarrow> rat \<Rightarrow> rat" where
  "js_sub a b = double_of (a - b)"

text \<open>
  \<^verbatim>\<open>values.reduce((acc, v) => acc + v, 0)\<close> on numbers: the accumulator is a double, every
  value is taken as its double.
\<close>

definition double_sum :: "rat list \<Rightarrow> rat" where
  "double_sum vs = fold (\<lambda>v acc. js_add acc (double_of v)) vs 0"

section \<open>The split calculator\<close>

datatype SplitType = EQUAL | EXACT | PERCENTAGE

text \<open>
  The interfaces \<^verbatim>\<open>SplitInput\<close> and \<^verbatim>\<open>ResolvedSplit\<close>. The optional field \<^verbatim>\<open>value\<close> is the
  field \<open>val\<close>, absent when \<open>None\<close>. The interfaces of the source share the field names
  \<^verbatim>\<open>userId\<close> and \<^verbatim>\<open>amount\<close>; here a shared name is written with its record, as in
  \<open>SplitInput.userId\<close> and \<open>ResolvedSplit.userId\<close>.
\<close>

record SplitInput =
  userId :: string
  val :: "rat option"

record ResolvedSplit =
  userId :: string
  amount :: Decimal

text \<open>
  Every \<^verbatim>\<open>throw new Error(...)\<close> of the calculator is one constructor, carrying what the
  message interpolates: the user of an invalid entry, the two sums of a mismatch (the sum
  of the percentages is the double that the message prints). The messages of the
  validator are constructors too, in place of the strings; the two sum messages carry the
  expected and the actual sum (the source prints the actual one with \<^verbatim>\<open>toFixed(2)\<close>).
\<close>

datatype validation_message =
    AtLeastOneParticipant
  | AmountMustBeGreaterThanZero
  | DuplicateParticipants
  | ExactAmountsMustSumTo rat rat
  | PercentagesMustSumTo100 rat

datatype error =
    NoParticipants
  | InvalidExactAmount string
  | ExactSumMismatch Decimal Decimal
  | InvalidPercentage string
  | PercentageSumMismatch rat

definition resolveEqualSplit :: "Decimal \<Rightarrow> SplitInput list \<Rightarrow> ResolvedSplit list" where
  "resolveEqualSplit totalAmount participants =
     (let count = length participants;
          baseAmount = toDecimalPlaces 2 ROUND_DOWN (totalAmount / of_nat count);
          totalBase = baseAmount * of_nat count;
          remainder = totalAmount - totalBase
      in map (\<lambda>(index, p).
                \<lparr>ResolvedSplit.userId = SplitInput.userId p,
                 amount = (if index = 0 then baseAmount + remainder else baseAmount)\<rparr>)
             (enumerate 0 participants))"

definition invalid_exact :: "SplitInput \<Rightarrow> bool" where
  "invalid_exact p = (case val p of None \<Rightarrow> True | Some v \<Rightarrow> v < 0)"

definition resolveExactSplit :: "Decimal \<Rightarrow> SplitInput list \<Rightarrow> error + ResolvedSplit list" where
  "resolveExactSplit totalAmount participants =
     (case find invalid_exact participants of
        Some p \<Rightarrow> Inl (InvalidExactAmount (SplitInput.userId p))
      | None \<Rightarrow>
          (let sum = fold (\<lambda>p acc. acc + the (val p)) participants 0
           in if \<bar>sum - totalAmount\<bar> > 1 / 100
              then Inl (ExactSumMismatch sum totalAmount)
              else Inr (map (\<lambda>p. \<lparr>ResolvedSplit.userId = SplitInput.userId p,
                                    amount = toDecimalPlaces 2 ROUND_HALF_UP (the (val p))\<rparr>)
                            participants)))"

definition invalid_percentage :: "SplitInput \<Rightarrow> bool" where
  "invalid_percentage p = (case val p of None \<Rightarrow> True | Some v \<Rightarrow> v < 0 \<or> v > 100)"

definition resolvePercentageSplit :: "Decimal \<Rightarrow> SplitInput list \<Rightarrow> error + ResolvedSplit list" where
  "resolvePercentageSplit totalAmount participants =
     (case find invalid_percentage participants of
        Some p \<Rightarrow> Inl (InvalidPercentage (SplitInput.userId p))
      | None \<Rightarrow>
          (let totalPercentage = double_sum (map (\<lambda>p. the (val p)) participants)
           in if \<bar>js_sub totalPercentage 100\<bar> > double_of (1 / 100)
              then Inl (PercentageSumMismatch totalPercentage)
              else
                (let splits = map (\<lambda>p. \<lparr>ResolvedSplit.userId = SplitInput.userId p,
                                          amount = toDecimalPlaces 2 ROUND_DOWN
                                                     (totalAmount * the (val p) / 100)\<rparr>)
                                  participants;
                     calculatedSum = fold (\<lambda>s acc. acc + amount s) splits 0;
                     remainder = totalAmount - calculatedSum
                 in if remainder > 0
                    then Inr (case splits of
                                [] \<Rightarrow> []
                              | s # rest \<Rightarrow> s\<lparr>amount := amount s + remainder\<rparr> # rest)
                    else Inr splits)))"

text \<open>
  \<open>resolveSplits\<close> does not read its last argument, \<^verbatim>\<open>payerId\<close>. The \<^verbatim>\<open>default\<close> branch of
  its \<^verbatim>\<open>switch\<close> has no counterpart: \<open>SplitType\<close> is closed.
\<close>

definition resolveSplits ::
  "Decimal \<Rightarrow> SplitType \<Rightarrow> SplitInput list \<Rightarrow> string \<Rightarrow> error + ResolvedSplit list" where
  "resolveSplits totalAmount splitType participants payerId =
     (if length participants = 0 then Inl NoParticipants
      else case splitType of
             EQUAL \<Rightarrow> Inr (resolveEqualSplit totalAmount participants)
           | EXACT \<Rightarrow> resolveExactSplit totalAmount participants
           | PERCENTAGE \<Rightarrow> resolvePercentageSplit totalAmount participants)"

text \<open>
  \<^verbatim>\<open>p.value || 0\<close>: an absent value counts as zero in the validator's sums. The validator
  takes the total as a number and forms both of its sums in doubles.
\<close>

definition value_or_zero :: "SplitInput \<Rightarrow> rat" where
  "value_or_zero p = (case val p of None \<Rightarrow> 0 | Some v \<Rightarrow> v)"

definition validateSplitInput ::
  "SplitType \<Rightarrow> rat \<Rightarrow> SplitInput list \<Rightarrow> validation_message list" where
  "validateSplitInput splitType totalAmount participants =
     (let errors0 = (if length participants = 0 then [AtLeastOneParticipant] else []);
          errors1 = (if totalAmount \<le> 0 then errors0 @ [AmountMustBeGreaterThanZero] else errors0);
          userIds = map SplitInput.userId participants;
          errors2 = (if card (set userIds) \<noteq> length userIds
                     then errors1 @ [DuplicateParticipants] else errors1);
          errors3 = (if splitType = EXACT
                     then (let sum = double_sum (map value_or_zero participants)
                           in if \<bar>js_sub sum (double_of totalAmount)\<bar> > double_of (1 / 100)
                              then errors2 @ [ExactAmountsMustSumTo totalAmount sum]
                              else errors2)
                     else errors2);
          errors4 = (if splitType = PERCENTAGE
                     then (let sum = double_sum (map value_or_zero participants)
                           in if \<bar>js_sub sum 100\<bar> > double_of (1 / 100)
                              then errors3 @ [PercentagesMustSumTo100 sum]
                              else errors3)
                     else errors3)
      in errors4)"

section \<open>The balance simplifier\<close>

record UserBalance =
  userId :: string
  balance :: Decimal

record Settlement =
  fromUserId :: string
  toUserId :: string
  amount :: Decimal

text \<open>
  The local variables of \<open>simplifyBalances\<close> that its \<^verbatim>\<open>while\<close> loop reads and writes:
  the two sorted arrays, the two cursors and the settlements pushed so far. The arrays
  hold fresh objects; the loop overwrites the \<^verbatim>\<open>balance\<close> of the entries under the
  cursors, which is the list update here.
\<close>

record loop_state =
  creditors :: "UserBalance list"
  debtors :: "UserBalance list"
  creditorIdx :: nat
  debtorIdx :: nat
  settlements :: "Settlement list"

definition loop_cond :: "loop_state \<Rightarrow> bool" where
  "loop_cond s \<longleftrightarrow>
     creditorIdx s < length (creditors s) \<and> debtorIdx s < length (debtors s)"

definition loop_body :: "loop_state \<Rightarrow> loop_state" where
  "loop_body s =
     (let creditor = creditors s ! creditorIdx s;
          debtor = debtors s ! debtorIdx s;
          transferAmount = min (balance creditor) (balance debtor);
          settlements' =
            (if transferAmount > 0
             then settlements s @
                    [\<lparr>fromUserId = UserBalance.userId debtor,
                      toUserId = UserBalance.userId creditor,
                      amount = toDecimalPlaces 2 ROUND_HALF_UP transferAmount\<rparr>]
             else settlements s);
          creditor' = creditor\<lparr>balance := balance creditor - transferAmount\<rparr>;
          debtor' = debtor\<lparr>balance := balance debtor - transferAmount\<rparr>
      in \<lparr>creditors = (creditors s)[creditorIdx s := creditor'],
          debtors = (debtors s)[debtorIdx s := debtor'],
          creditorIdx = (if balance creditor' \<le> 0 then creditorIdx s + 1 else creditorIdx s),
          debtorIdx = (if balance debtor' \<le> 0 then debtorIdx s + 1 else debtorIdx s),
          settlements = settlements'\<rparr>)"

text \<open>The number of entries the two cursors have not passed yet.\<close>

definition loop_remaining :: "loop_state \<Rightarrow> nat" where
  "loop_remaining s =
     (length (creditors s) - creditorIdx s) + (length (debtors s) - debtorIdx s)"

function simplify_loop :: "loop_state \<Rightarrow> Settlement list" where
  "simplify_loop s = (if loop_cond s then simplify_loop (loop_body s) else settlements s)"
  by pat_completeness auto
termination
  by (relation "measure loop_remaining")
     (auto simp: loop_cond_def loop_body_def loop_remaining_def Let_def min_def
           split: if_splits)

declare simplify_loop.simps [simp del]

text \<open>
  Creditors are the entries with a positive balance, debtors those with a negative one,
  kept with the absolute value; a zero balance goes to neither array. \<^verbatim>\<open>Array.sort\<close> is
  stable and the comparator \<^verbatim>\<open>b.balance - a.balance\<close> orders by descending balance.
\<close>

definition sortByBalance :: "UserBalance list \<Rightarrow> UserBalance list" where
  "sortByBalance xs = sort_key (\<lambda>b. - balance b) xs"

definition creditors_of :: "UserBalance list \<Rightarrow> UserBalance list" where
  "creditors_of balances =
     map (\<lambda>b. \<lparr>UserBalance.userId = UserBalance.userId b, balance = balance b\<rparr>)
         (filter (\<lambda>b. balance b > 0) balances)"

definition debtors_of :: "UserBalance list \<Rightarrow> UserBalance list" where
  "debtors_of balances =
     map (\<lambda>b. \<lparr>UserBalance.userId = UserBalance.userId b, balance = \<bar>balance b\<bar>\<rparr>)
         (filter (\<lambda>b. \<not> balance b > 0 \<and> balance b < 0) balances)"

definition simplifyBalances :: "UserBalance list \<Rightarrow> Settlement list" where
  "simplifyBalances balances =
     simplify_loop
       \<lparr>creditors = sortByBalance (creditors_of balances),
        debtors = sortByBalance (debtors_of balances),
        creditorIdx = 0, debtorIdx = 0, settlements = []\<rparr>"

text \<open>
  The transfers the loop still emits from the entries at and behind the cursors, as a
  recursion on those entries; \<open>simplify_loop\<close> is shown below to append exactly these
  to its settlements.
\<close>

function pairings :: "UserBalance list \<Rightarrow> UserBalance list \<Rightarrow> Settlement list" where
  "pairings [] ds = []"
| "pairings (c # cs) [] = []"
| "pairings (c # cs) (d # ds) =
     (let t = min (balance c) (balance d)
      in (if t > 0
          then [\<lparr>fromUserId = UserBalance.userId d, toUserId = UserBalance.userId c,
                  amount = toDecimalPlaces 2 ROUND_HALF_UP t\<rparr>]
          else []) @
         pairings (if balance c - t \<le> 0 then cs else c\<lparr>balance := balance c - t\<rparr> # cs)
                  (if balance d - t \<le> 0 then ds else d\<lparr>balance := balance d - t\<rparr> # ds))"
  by pat_completeness auto
termination
  by (relation "measure (\<lambda>(cs, ds). length cs + length ds)")
     (auto simp: min_def split: if_splits)

declare pairings.simps(3) [simp del]

section \<open>Notions of the specification\<close>

text \<open>
  The specification's \<^emph>\<open>floor to 2 decimals\<close>, which it glosses as rounding toward zero:
  the floor of the hundredths for a non-negative amount, their ceiling for a negative one.
\<close>

definition spec_floor2 :: "rat \<Rightarrow> rat" where
  "spec_floor2 x = of_int (if 0 \<le> x then \<lfloor>x * 100\<rfloor> else \<lceil>x * 100\<rceil>) / 100"

text \<open>The specification's \<^emph>\<open>rounded to 2 decimals\<close>: to the nearest cent, a tie away from zero.\<close>

definition spec_round2 :: "rat \<Rightarrow> rat" where
  "spec_round2 x =
     of_int (if 0 \<le> x then \<lfloor>x * 100 + 1 / 2\<rfloor> else \<lceil>x * 100 - 1 / 2\<rceil>) / 100"

text \<open>
  The shares of a percentage split before the remainder is placed, and the placing of an
  amount on the first share of a list.
\<close>

definition floored_shares :: "rat \<Rightarrow> SplitInput list \<Rightarrow> ResolvedSplit list" where
  "floored_shares t ps =
     map (\<lambda>p. \<lparr>ResolvedSplit.userId = SplitInput.userId p,
               ResolvedSplit.amount = spec_floor2 (t * value_or_zero p / 100)\<rparr>) ps"

definition add_to_first :: "rat \<Rightarrow> ResolvedSplit list \<Rightarrow> ResolvedSplit list" where
  "add_to_first r splits =
     (case splits of [] \<Rightarrow> []
      | s # rest \<Rightarrow> s\<lparr>ResolvedSplit.amount := ResolvedSplit.amount s + r\<rparr> # rest)"

section \<open>Rounding and sums\<close>

lemma toDecimalPlaces_down: "toDecimalPlaces 2 ROUND_DOWN x = spec_floor2 x"
  by (simp add: toDecimalPlaces_def spec_floor2_def)

lemma toDecimalPlaces_half_up: "toDecimalPlaces 2 ROUND_HALF_UP x = spec_round2 x"
  by (simp add: toDecimalPlaces_def spec_round2_def)

lemma fold_plus_sum_list:
  fixes f :: "'a \<Rightarrow> rat"
  shows "fold (\<lambda>p acc. acc + f p) xs a = a + sum_list (map f xs)"
  by (induction xs arbitrary: a) (simp_all add: add.assoc)

section \<open>The doubles of some decimals\<close>

text \<open>
  The doubles that JavaScript reads for 0.01, 99.99, 100.01 and 33.33, as exact
  fractions, and the differences and the sum that the tolerance tests below compute:
  in doubles, \<^verbatim>\<open>99.99 - 100\<close> and \<^verbatim>\<open>100.01 - 100\<close> are beyond the double 0.01 by about
  5e-15, and \<^verbatim>\<open>33.33 + 33.33 + 33.33\<close> is the double 99.99.
\<close>

lemma double_of_hundredth: "double_of (1 / 100) = 5764607523034235 / 576460752303423488"
  by code_simp

lemma double_of_9999: "double_of (9999 / 100) = 7036170730324623 / 70368744177664"
  by code_simp

lemma double_of_10001: "double_of (10001 / 100) = 7037578105208177 / 70368744177664"
  by code_simp

lemma double_of_3333: "double_of (3333 / 100) = 2345390243441541 / 70368744177664"
  by code_simp

lemma js_sub_9999: "js_sub (double_of (9999 / 100)) 100 = - (703687441777 / 70368744177664)"
  by code_simp

lemma js_sub_10001: "js_sub (double_of (10001 / 100)) 100 = 703687441777 / 70368744177664"
  by code_simp

lemma double_sum_3333: "double_sum [3333 / 100, 3333 / 100, 3333 / 100] = double_of (9999 / 100)"
  by code_simp

lemma tolerance_exceeded_9999:
  "double_of (1 / 100) < \<bar>js_sub (double_sum [9999 / 100]) 100\<bar>"
  by code_simp

section \<open>Equal split\<close>

lemma resolveEqualSplit_length: "length (resolveEqualSplit t ps) = length ps"
  by (simp add: resolveEqualSplit_def Let_def)

lemma resolveEqualSplit_nth:
  assumes "i < length ps"
  shows "resolveEqualSplit t ps ! i =
    \<lparr>ResolvedSplit.userId = SplitInput.userId (ps ! i),
     ResolvedSplit.amount =
       (if i = 0
        then spec_floor2 (t / of_nat (length ps)) +
             (t - spec_floor2 (t / of_nat (length ps)) * of_nat (length ps))
        else spec_floor2 (t / of_nat (length ps)))\<rparr>"
  using assms
  by (simp add: resolveEqualSplit_def Let_def nth_enumerate_eq toDecimalPlaces_down)

text \<open>
  C3. Under the equal policy, with at least one participant, resolution succeeds, keeps
  the participants in input order, and gives everyone the base share, the total divided
  by the number of participants and cut to two decimals; the first participant gets the
  base share plus the whole remainder, the total minus the base share times the number of
  participants. 100.00 among A, B and C resolves to 33.34, 33.33 and 33.33.
\<close>

theorem equal_split_shares:
  "(participants \<noteq> [] \<longrightarrow>
     (\<exists>shares. resolveSplits totalAmount EQUAL participants payerId = Inr shares \<and>
        length shares = length participants \<and>
        (\<forall>i<length participants.
           ResolvedSplit.userId (shares ! i) = SplitInput.userId (participants ! i) \<and>
           ResolvedSplit.amount (shares ! i) =
             (if i = 0
              then spec_floor2 (totalAmount / of_nat (length participants)) +
                   (totalAmount - spec_floor2 (totalAmount / of_nat (length participants)) *
                                  of_nat (length participants))
              else spec_floor2 (totalAmount / of_nat (length participants)))))) \<and>
   resolveSplits 100 EQUAL
     [\<lparr>SplitInput.userId = ''A'', val = None\<rparr>,
      \<lparr>SplitInput.userId = ''B'', val = None\<rparr>,
      \<lparr>SplitInput.userId = ''C'', val = None\<rparr>] payerId =
   Inr [\<lparr>ResolvedSplit.userId = ''A'', ResolvedSplit.amount = 3334 / 100\<rparr>,
        \<lparr>ResolvedSplit.userId = ''B'', ResolvedSplit.amount = 3333 / 100\<rparr>,
        \<lparr>ResolvedSplit.userId = ''C'', ResolvedSplit.amount = 3333 / 100\<rparr>]"
proof (intro conjI impI)
  assume ne: "participants \<noteq> []"
  have "resolveSplits totalAmount EQUAL participants payerId =
        Inr (resolveEqualSplit totalAmount participants)"
    using ne by (simp add: resolveSplits_def)
  then show "\<exists>shares. resolveSplits totalAmount EQUAL participants payerId = Inr shares \<and>
        length shares = length participants \<and>
        (\<forall>i<length participants.
           ResolvedSplit.userId (shares ! i) = SplitInput.userId (participants ! i) \<and>
           ResolvedSplit.amount (shares ! i) =
             (if i = 0
              then spec_floor2 (totalAmount / of_nat (length participants)) +
                   (totalAmount - spec_floor2 (totalAmount / of_nat (length participants)) *
                                  of_nat (length participants))
              else spec_floor2 (totalAmount / of_nat (length participants))))"
    by (simp add: resolveEqualSplit_length resolveEqualSplit_nth)
next
  have "resolveSplits 100 EQUAL
     [\<lparr>SplitInput.userId = ''A'', val = None\<rparr>,
      \<lparr>SplitInput.userId = ''B'', val = None\<rparr>,
      \<lparr>SplitInput.userId = ''C'', val = None\<rparr>] [] =
   Inr [\<lparr>ResolvedSplit.userId = ''A'', ResolvedSplit.amount = 3334 / 100\<rparr>,
        \<lparr>ResolvedSplit.userId = ''B'', ResolvedSplit.amount = 3333 / 100\<rparr>,
        \<lparr>ResolvedSplit.userId = ''C'', ResolvedSplit.amount = 3333 / 100\<rparr>]"
    by code_simp
  then show "resolveSplits 100 EQUAL
     [\<lparr>SplitInput.userId = ''A'', val = None\<rparr>,
      \<lparr>SplitInput.userId = ''B'', val = None\<rparr>,
      \<lparr>SplitInput.userId = ''C'', val = None\<rparr>] payerId =
   Inr [\<lparr>ResolvedSplit.userId = ''A'', ResolvedSplit.amount = 3334 / 100\<rparr>,
        \<lparr>ResolvedSplit.userId = ''B'', ResolvedSplit.amount = 3333 / 100\<rparr>,
        \<lparr>ResolvedSplit.userId = ''C'', ResolvedSplit.amount = 3333 / 100\<rparr>]"
    by (simp add: resolveSplits_def)
qed

theorem equal_split_shares_witness:
  "[\<lparr>SplitInput.userId = ''A'', val = None\<rparr>, \<lparr>SplitInput.userId = ''B'', val = None\<rparr>] \<noteq> [] \<and>
   (\<exists>shares.
      resolveSplits 7 EQUAL
        [\<lparr>SplitInput.userId = ''A'', val = None\<rparr>, \<lparr>SplitInput.userId = ''B'', val = None\<rparr>]
        ''B'' = Inr shares \<and>
      length shares = 2 \<and>
      ResolvedSplit.amount (shares ! 0) = 7 / 2 \<and>
      ResolvedSplit.amount (shares ! 1) = 7 / 2)"
proof -
  let ?ps = "[\<lparr>SplitInput.userId = ''A'', val = None\<rparr>, \<lparr>SplitInput.userId = ''B'', val = None\<rparr>]"
  have ne: "?ps \<noteq> []" by simp
  have fl: "spec_floor2 (7 / 2) = 7 / 2" by code_simp
  from equal_split_shares [of ?ps 7 "''B''"] ne
  obtain shares where r: "resolveSplits 7 EQUAL ?ps ''B'' = Inr shares"
    and l: "length shares = length ?ps"
    and a: "\<forall>i<length ?ps. ResolvedSplit.userId (shares ! i) = SplitInput.userId (?ps ! i) \<and>
           ResolvedSplit.amount (shares ! i) =
             (if i = 0
              then spec_floor2 (7 / of_nat (length ?ps)) +
                   (7 - spec_floor2 (7 / of_nat (length ?ps)) * of_nat (length ?ps))
              else spec_floor2 (7 / of_nat (length ?ps)))"
    by blast
  from a have a0: "ResolvedSplit.amount (shares ! 0) = 7 / 2"
    by (simp add: fl)
  from a have a1: "ResolvedSplit.amount (shares ! 1) = 7 / 2"
    by (simp add: fl)
  from r l a0 a1 show ?thesis by simp
qed

section \<open>Exact split\<close>


lemma invalid_percentage_iff:
  "invalid_percentage p \<longleftrightarrow> val p = None \<or> value_or_zero p < 0 \<or> value_or_zero p > 100"
  by (simp add: invalid_percentage_def value_or_zero_def split: option.splits)

lemma the_val_exact: "\<not> invalid_exact p \<Longrightarrow> the (val p) = value_or_zero p"
  by (auto simp: invalid_exact_def value_or_zero_def split: option.splits)

lemma the_val_percentage: "\<not> invalid_percentage p \<Longrightarrow> the (val p) = value_or_zero p"
  by (auto simp: invalid_percentage_def value_or_zero_def split: option.splits)

lemma sum_the_val_exact:
  "\<forall>p\<in>set ps. \<not> invalid_exact p \<Longrightarrow>
   sum_list (map (\<lambda>p. the (val p)) ps) = sum_list (map value_or_zero ps)"
  by (induction ps) (simp_all add: the_val_exact)

lemma resolveExactSplit_invalid:
  assumes "find invalid_exact ps = Some p"
  shows "resolveExactSplit t ps = Inl (InvalidExactAmount (SplitInput.userId p))"
  using assms by (simp add: resolveExactSplit_def)

lemma resolveExactSplit_valid:
  assumes "\<forall>p\<in>set ps. \<not> invalid_exact p"
  shows "resolveExactSplit t ps =
    (if \<bar>sum_list (map value_or_zero ps) - t\<bar> > 1 / 100
     then Inl (ExactSumMismatch (sum_list (map value_or_zero ps)) t)
     else Inr (map (\<lambda>p. \<lparr>ResolvedSplit.userId = SplitInput.userId p,
                         ResolvedSplit.amount = spec_round2 (value_or_zero p)\<rparr>) ps))"
proof -
  have f: "find invalid_exact ps = None"
    using assms by (simp add: find_None_iff)
  show ?thesis
    using assms
    by (simp add: resolveExactSplit_def f fold_plus_sum_list sum_the_val_exact
        toDecimalPlaces_half_up the_val_exact cong: map_cong)
qed




section \<open>Percentage split\<close>

lemma resolvePercentageSplit_invalid:
  assumes "find invalid_percentage ps = Some p"
  shows "resolvePercentageSplit t ps = Inl (InvalidPercentage (SplitInput.userId p))"
  using assms by (simp add: resolvePercentageSplit_def)

lemma sum_floored_shares:
  "sum_list (map ResolvedSplit.amount (floored_shares t ps)) =
   sum_list (map (\<lambda>p. spec_floor2 (t * value_or_zero p / 100)) ps)"
  by (simp add: floored_shares_def comp_def)

lemma resolvePercentageSplit_valid:
  assumes "\<forall>p\<in>set ps. \<not> invalid_percentage p"
  shows "resolvePercentageSplit t ps =
    (if \<bar>js_sub (double_sum (map value_or_zero ps)) 100\<bar> > double_of (1 / 100)
     then Inl (PercentageSumMismatch (double_sum (map value_or_zero ps)))
     else if t - sum_list (map (\<lambda>p. spec_floor2 (t * value_or_zero p / 100)) ps) > 0
     then Inr (add_to_first (t - sum_list (map (\<lambda>p. spec_floor2 (t * value_or_zero p / 100)) ps))
                 (floored_shares t ps))
     else Inr (floored_shares t ps))"
proof -
  have f: "find invalid_percentage ps = None"
    using assms by (simp add: find_None_iff)
  have m: "map (\<lambda>p. \<lparr>ResolvedSplit.userId = SplitInput.userId p,
                     ResolvedSplit.amount = toDecimalPlaces 2 ROUND_DOWN (t * the (val p) / 100)\<rparr>) ps
           = floored_shares t ps"
    using assms by (simp add: floored_shares_def toDecimalPlaces_down the_val_percentage cong: map_cong)
  have tp: "map (\<lambda>p. the (val p)) ps = map value_or_zero ps"
    using assms by (simp add: the_val_percentage cong: map_cong)
  have cs: "fold (\<lambda>s acc. acc + ResolvedSplit.amount s) (floored_shares t ps) 0 =
            sum_list (map (\<lambda>p. spec_floor2 (t * value_or_zero p / 100)) ps)"
    by (simp add: fold_plus_sum_list sum_floored_shares)
  show ?thesis
    unfolding resolvePercentageSplit_def f option.case Let_def m tp cs add_to_first_def
    by simp
qed













section \<open>The payer\<close>



section \<open>Validation\<close>

lemma card_set_neq_length: "card (set xs) \<noteq> length xs \<longleftrightarrow> \<not> distinct xs"
  using distinct_card card_distinct by metis

lemma validate_empty:
  "ps = [] \<Longrightarrow>
   hd (validateSplitInput s t ps) = AtLeastOneParticipant \<and> validateSplitInput s t ps \<noteq> []"
  by (simp add: validateSplitInput_def Let_def)

lemma validate_amount:
  "ps \<noteq> [] \<Longrightarrow> t \<le> 0 \<Longrightarrow>
   hd (validateSplitInput s t ps) = AmountMustBeGreaterThanZero \<and> validateSplitInput s t ps \<noteq> []"
  by (simp add: validateSplitInput_def Let_def)

lemma validate_duplicate:
  "ps \<noteq> [] \<Longrightarrow> 0 < t \<Longrightarrow> \<not> distinct (map SplitInput.userId ps) \<Longrightarrow>
   hd (validateSplitInput s t ps) = DuplicateParticipants \<and> validateSplitInput s t ps \<noteq> []"
  by (simp add: validateSplitInput_def Let_def card_set_neq_length)

lemma validate_mem_empty: "ps = [] \<Longrightarrow> AtLeastOneParticipant \<in> set (validateSplitInput s t ps)"
  by (simp add: validateSplitInput_def Let_def)

lemma validate_mem_amount: "t \<le> 0 \<Longrightarrow> AmountMustBeGreaterThanZero \<in> set (validateSplitInput s t ps)"
  by (simp add: validateSplitInput_def Let_def)

lemma validate_mem_duplicate:
  "\<not> distinct (map SplitInput.userId ps) \<Longrightarrow> DuplicateParticipants \<in> set (validateSplitInput s t ps)"
  by (simp add: validateSplitInput_def Let_def card_set_neq_length)

lemma resolveExactSplit_not_NoParticipants: "resolveExactSplit t ps \<noteq> Inl NoParticipants"
  by (simp add: resolveExactSplit_def Let_def split: option.splits)

lemma resolvePercentageSplit_not_NoParticipants:
  "resolvePercentageSplit t ps \<noteq> Inl NoParticipants"
  by (simp add: resolvePercentageSplit_def Let_def split: option.splits)

lemma resolveSplits_NoParticipants_iff:
  "resolveSplits t s ps payer = Inl NoParticipants \<longleftrightarrow> ps = []"
  using resolveExactSplit_not_NoParticipants [of t ps]
    resolvePercentageSplit_not_NoParticipants [of t ps]
  by (cases s) (simp_all add: resolveSplits_def)

text \<open>
  At the edge of the tolerance the validator follows the doubles: an exact amount of
  100.01 for a total of 100, and a single percentage of 99.99, are reported.
\<close>

lemma validateSplitInput_exact_boundary:
  "validateSplitInput EXACT 100 [\<lparr>SplitInput.userId = ''A'', val = Some (10001 / 100)\<rparr>] =
   [ExactAmountsMustSumTo 100 (double_of (10001 / 100))]"
  by code_simp

lemma validateSplitInput_percentage_boundary:
  "validateSplitInput PERCENTAGE 100 [\<lparr>SplitInput.userId = ''A'', val = Some (9999 / 100)\<rparr>] =
   [PercentagesMustSumTo100 (double_of (9999 / 100))]"
  by code_simp

lemma resolvePercentageSplit_thirds_boundary:
  "resolveSplits 100 PERCENTAGE
     [\<lparr>SplitInput.userId = ''A'', val = Some (3333 / 100)\<rparr>,
      \<lparr>SplitInput.userId = ''B'', val = Some (3333 / 100)\<rparr>,
      \<lparr>SplitInput.userId = ''C'', val = Some (3333 / 100)\<rparr>] ''A'' =
   Inl (PercentageSumMismatch (double_of (9999 / 100)))"
  by code_simp

text \<open>
  C6, as amended. For an empty participant list, a total that is not positive, or a
  repeated user among the participants, \<open>validateSplitInput\<close> reports the message of each
  rule that is violated, and its first message names a violated rule. \<open>resolveSplits\<close>
  itself fails with its error for a missing participant exactly when the list is empty;
  it tests neither the sign of the total nor repeated users, and under the equal policy
  it returns one share for each entry of every non-empty list.
\<close>

theorem validation_reports:
  "(participants = [] \<longrightarrow>
      AtLeastOneParticipant \<in> set (validateSplitInput splitType totalAmount participants)) \<and>
   (totalAmount \<le> 0 \<longrightarrow>
      AmountMustBeGreaterThanZero \<in> set (validateSplitInput splitType totalAmount participants)) \<and>
   (\<not> distinct (map SplitInput.userId participants) \<longrightarrow>
      DuplicateParticipants \<in> set (validateSplitInput splitType totalAmount participants)) \<and>
   (participants = [] \<or> totalAmount \<le> 0 \<or> \<not> distinct (map SplitInput.userId participants) \<longrightarrow>
      validateSplitInput splitType totalAmount participants \<noteq> [] \<and>
      (hd (validateSplitInput splitType totalAmount participants) = AtLeastOneParticipant \<and>
         participants = [] \<or>
       hd (validateSplitInput splitType totalAmount participants) = AmountMustBeGreaterThanZero \<and>
         totalAmount \<le> 0 \<or>
       hd (validateSplitInput splitType totalAmount participants) = DuplicateParticipants \<and>
         \<not> distinct (map SplitInput.userId participants))) \<and>
   (resolveSplits totalAmount splitType participants payerId = Inl NoParticipants \<longleftrightarrow>
      participants = []) \<and>
   (participants \<noteq> [] \<longrightarrow>
      (\<exists>shares. resolveSplits totalAmount EQUAL participants payerId = Inr shares \<and>
         length shares = length participants))"
proof (intro conjI impI)
  assume v: "participants = [] \<or> totalAmount \<le> 0 \<or> \<not> distinct (map SplitInput.userId participants)"
  let ?m = "hd (validateSplitInput splitType totalAmount participants)"
  consider (e) "participants = []"
    | (a) "participants \<noteq> []" "totalAmount \<le> 0"
    | (d) "participants \<noteq> []" "0 < totalAmount" "\<not> distinct (map SplitInput.userId participants)"
    using v by fastforce
  then have r: "validateSplitInput splitType totalAmount participants \<noteq> [] \<and>
      (?m = AtLeastOneParticipant \<and> participants = [] \<or>
       ?m = AmountMustBeGreaterThanZero \<and> totalAmount \<le> 0 \<or>
       ?m = DuplicateParticipants \<and> \<not> distinct (map SplitInput.userId participants))"
  proof cases
    case e
    then show ?thesis using validate_empty by blast
  next
    case a
    then show ?thesis using validate_amount by blast
  next
    case d
    then show ?thesis using validate_duplicate by blast
  qed
  from r show "validateSplitInput splitType totalAmount participants \<noteq> []" ..
  from r show "?m = AtLeastOneParticipant \<and> participants = [] \<or>
       ?m = AmountMustBeGreaterThanZero \<and> totalAmount \<le> 0 \<or>
       ?m = DuplicateParticipants \<and> \<not> distinct (map SplitInput.userId participants)" ..
next
  show "resolveSplits totalAmount splitType participants payerId = Inl NoParticipants \<longleftrightarrow>
      participants = []"
    by (rule resolveSplits_NoParticipants_iff)
next
  assume "participants \<noteq> []"
  then show "\<exists>shares. resolveSplits totalAmount EQUAL participants payerId = Inr shares \<and>
         length shares = length participants"
    by (simp add: resolveSplits_def resolveEqualSplit_length)
qed (simp_all add: validate_mem_empty validate_mem_amount validate_mem_duplicate)

theorem validation_reports_witness:
  "\<not> distinct (map SplitInput.userId
       [\<lparr>SplitInput.userId = ''A'', val = None\<rparr>, \<lparr>SplitInput.userId = ''A'', val = None\<rparr>]) \<and>
   hd (validateSplitInput EQUAL 100
     [\<lparr>SplitInput.userId = ''A'', val = None\<rparr>, \<lparr>SplitInput.userId = ''A'', val = None\<rparr>]) =
   DuplicateParticipants \<and>
   hd (validateSplitInput EQUAL 0 [\<lparr>SplitInput.userId = ''A'', val = None\<rparr>]) =
   AmountMustBeGreaterThanZero \<and>
   hd (validateSplitInput EQUAL 100 []) = AtLeastOneParticipant \<and>
   AmountMustBeGreaterThanZero \<in> set (validateSplitInput EQUAL 0 []) \<and>
   resolveSplits 100 EQUAL [] ''A'' = Inl NoParticipants"
proof -
  let ?d = "[\<lparr>SplitInput.userId = ''A'', val = None\<rparr>, \<lparr>SplitInput.userId = ''A'', val = None\<rparr>]"
  let ?a = "[\<lparr>SplitInput.userId = ''A'', val = None\<rparr>]"
  have d: "\<not> distinct (map SplitInput.userId ?d)" by simp
  from validation_reports [of ?d EQUAL 100 "''A''"] d
  have 1: "hd (validateSplitInput EQUAL 100 ?d) = DuplicateParticipants"
    by auto
  from validation_reports [of ?a EQUAL 0 "''A''"]
  have 2: "hd (validateSplitInput EQUAL 0 ?a) = AmountMustBeGreaterThanZero"
    by auto
  from validation_reports [of "[]" EQUAL 100 "''A''"]
  have 3: "hd (validateSplitInput EQUAL 100 []) = AtLeastOneParticipant"
    and 5: "resolveSplits 100 EQUAL [] ''A'' = Inl NoParticipants"
    by auto
  from validation_reports [of "[]" EQUAL 0 "''A''"]
  have 4: "AmountMustBeGreaterThanZero \<in> set (validateSplitInput EQUAL 0 [])"
    by auto
  from d 1 2 3 4 5 show ?thesis by blast
qed

text \<open>
  \<open>resolveSplits\<close> on its own resolves a negative total and a repeated user into shares.
\<close>

theorem resolveSplits_unvalidated_counterexample:
  "resolveSplits (- 100) EQUAL [\<lparr>SplitInput.userId = ''A'', val = None\<rparr>] ''A'' =
   Inr [\<lparr>ResolvedSplit.userId = ''A'', ResolvedSplit.amount = - 100\<rparr>] \<and>
   resolveSplits 100 EQUAL
     [\<lparr>SplitInput.userId = ''A'', val = None\<rparr>, \<lparr>SplitInput.userId = ''A'', val = None\<rparr>] ''A'' =
   Inr [\<lparr>ResolvedSplit.userId = ''A'', ResolvedSplit.amount = 50\<rparr>,
        \<lparr>ResolvedSplit.userId = ''A'', ResolvedSplit.amount = 50\<rparr>]"
  by code_simp

section \<open>The sum of the shares\<close>

lemma validate_nil_positive:
  assumes "validateSplitInput s t ps = []"
  shows "ps \<noteq> []" and "0 < t"
proof -
  show "ps \<noteq> []" using assms validate_mem_empty [of ps s t] by auto
  show "0 < t" using assms validate_mem_amount [of t s ps] by (cases "t \<le> 0") auto
qed

lemma sum_resolveEqualSplit:
  assumes "ps \<noteq> []"
  shows "sum_list (map ResolvedSplit.amount (resolveEqualSplit t ps)) = t"
proof -
  let ?n = "length ps"
  let ?b = "spec_floor2 (t / of_nat ?n)"
  let ?r = "t - ?b * of_nat ?n"
  have n: "0 < ?n" using assms by simp
  have "sum_list (map ResolvedSplit.amount (resolveEqualSplit t ps)) =
        (\<Sum>i = 0..<?n. ResolvedSplit.amount (resolveEqualSplit t ps ! i))"
    by (simp add: sum_list_sum_nth resolveEqualSplit_length)
  also have "\<dots> = (\<Sum>i = 0..<?n. if i = 0 then ?b + ?r else ?b)"
    by (rule sum.cong) (simp_all add: resolveEqualSplit_nth)
  also have "\<dots> = (?b + ?r) + (\<Sum>i = Suc 0..<?n. if i = 0 then ?b + ?r else ?b)"
    using n by (simp add: sum.atLeast_Suc_lessThan)
  also have "(\<Sum>i = Suc 0..<?n. if i = 0 then ?b + ?r else ?b) = (\<Sum>i = Suc 0..<?n. ?b)"
    by (rule sum.cong) simp_all
  also have "\<dots> = of_nat (?n - 1) * ?b"
    by simp
  also have "(?b + ?r) + of_nat (?n - 1) * ?b = t"
  proof -
    from n obtain m where m: "?n = Suc m" by (cases "?n") auto
    show ?thesis unfolding m by (simp add: algebra_simps)
  qed
  finally show ?thesis .
qed

lemma spec_floor2_le:
  assumes "0 \<le> x"
  shows "spec_floor2 x \<le> x"
proof -
  have "spec_floor2 x = of_int \<lfloor>x * 100\<rfloor> / 100"
    using assms by (simp add: spec_floor2_def)
  also have "\<dots> \<le> (x * 100) / 100"
    by (intro divide_right_mono of_int_floor_le) simp
  finally show ?thesis by simp
qed

lemma whole_cents_round2: "whole_cents x \<Longrightarrow> spec_round2 x = x"
proof -
  assume "whole_cents x"
  then obtain k :: int where k: "x * 100 = of_int k"
    by (metis whole_cents_def)
  have "\<lfloor>(of_int k :: rat) + 1 / 2\<rfloor> = k" by linarith
  moreover have "\<lceil>(of_int k :: rat) - 1 / 2\<rceil> = k" by linarith
  ultimately have "spec_round2 x = of_int k / 100"
    by (simp add: spec_round2_def k)
  then show ?thesis using k by simp
qed

lemma sum_floors_le:
  assumes "0 \<le> t" "\<forall>p\<in>set ps. 0 \<le> value_or_zero p"
  shows "sum_list (map (\<lambda>p. spec_floor2 (t * value_or_zero p / 100)) ps) \<le>
         t * sum_list (map value_or_zero ps) / 100"
  using assms(2)
proof (induction ps)
  case Nil
  then show ?case by simp
next
  case (Cons p ps)
  have "spec_floor2 (t * value_or_zero p / 100) \<le> t * value_or_zero p / 100"
    using assms(1) Cons.prems by (intro spec_floor2_le) simp
  moreover have "sum_list (map (\<lambda>p. spec_floor2 (t * value_or_zero p / 100)) ps) \<le>
         t * sum_list (map value_or_zero ps) / 100"
    using Cons by simp
  ultimately show ?case by (simp add: algebra_simps add_divide_distrib)
qed

lemma sum_add_to_first:
  "xs \<noteq> [] \<Longrightarrow> sum_list (map ResolvedSplit.amount (add_to_first r xs)) =
     sum_list (map ResolvedSplit.amount xs) + r"
  by (cases xs) (simp_all add: add_to_first_def)

lemma sum_percentage:
  assumes ne: "ps \<noteq> []" and t: "0 < t"
    and r: "resolvePercentageSplit t ps = Inr shares"
    and le: "sum_list (map value_or_zero ps) \<le> 100"
  shows "sum_list (map ResolvedSplit.amount shares) = t"
proof -
  have valid: "\<forall>p\<in>set ps. \<not> invalid_percentage p"
  proof (rule ccontr)
    assume "\<not> ?thesis"
    then obtain p where "find invalid_percentage ps = Some p"
      by (cases "find invalid_percentage ps") (auto simp: find_None_iff)
    with r show False by (simp add: resolvePercentageSplit_invalid)
  qed
  then have nn: "\<forall>p\<in>set ps. 0 \<le> value_or_zero p"
    by (auto simp: invalid_percentage_iff not_less)
  let ?F = "sum_list (map (\<lambda>p. spec_floor2 (t * value_or_zero p / 100)) ps)"
  have "?F \<le> t * sum_list (map value_or_zero ps) / 100"
    using sum_floors_le [of t ps] t nn by simp
  also have "\<dots> \<le> t * 100 / 100"
    using le t by (intro divide_right_mono mult_left_mono) simp_all
  finally have F: "?F \<le> t" by simp
  have fs: "floored_shares t ps \<noteq> []" using ne by (simp add: floored_shares_def)
  show ?thesis
  proof (cases "0 < t - ?F")
    case True
    with r have "shares = add_to_first (t - ?F) (floored_shares t ps)"
      by (simp add: resolvePercentageSplit_valid [OF valid] split: if_splits)
    then show ?thesis
      by (simp add: sum_add_to_first [OF fs] sum_floored_shares)
  next
    case False
    with F have eq: "?F = t" by simp
    from False r have "shares = floored_shares t ps"
      by (simp add: resolvePercentageSplit_valid [OF valid] split: if_splits)
    then show ?thesis by (simp add: sum_floored_shares eq)
  qed
qed

lemma sum_exact:
  assumes r: "resolveExactSplit t ps = Inr shares"
    and wc: "\<forall>p\<in>set ps. whole_cents (value_or_zero p)"
    and eq: "sum_list (map value_or_zero ps) = t"
  shows "sum_list (map ResolvedSplit.amount shares) = t"
proof -
  have valid: "\<forall>p\<in>set ps. \<not> invalid_exact p"
  proof (rule ccontr)
    assume "\<not> ?thesis"
    then obtain p where "find invalid_exact ps = Some p"
      by (cases "find invalid_exact ps") (auto simp: find_None_iff)
    with r show False by (simp add: resolveExactSplit_invalid)
  qed
  from r have "shares = map (\<lambda>p. \<lparr>ResolvedSplit.userId = SplitInput.userId p,
                         ResolvedSplit.amount = spec_round2 (value_or_zero p)\<rparr>) ps"
    by (simp add: resolveExactSplit_valid [OF valid] split: if_splits)
  then have "map ResolvedSplit.amount shares = map (\<lambda>p. spec_round2 (value_or_zero p)) ps"
    by (simp add: comp_def)
  also have "\<dots> = map value_or_zero ps"
    using wc by (simp add: whole_cents_round2 cong: map_cong)
  finally show ?thesis using eq by simp
qed

text \<open>
  C1, as amended. For an input for which the validator reports nothing and the resolver
  returns shares, the shares sum
  to the total exactly under the equal policy; under the percentage policy when the
  percentages sum to at most 100; and under the exact policy when the supplied values
  are whole cents that sum to exactly the total.
\<close>

theorem accepted_shares_sum:
  "validateSplitInput splitType totalAmount participants = [] \<and>
   resolveSplits totalAmount splitType participants payerId = Inr shares \<longrightarrow>
     (splitType = EQUAL \<longrightarrow> sum_list (map ResolvedSplit.amount shares) = totalAmount) \<and>
     (splitType = PERCENTAGE \<and> sum_list (map value_or_zero participants) \<le> 100 \<longrightarrow>
        sum_list (map ResolvedSplit.amount shares) = totalAmount) \<and>
     (splitType = EXACT \<and> (\<forall>p\<in>set participants. whole_cents (value_or_zero p)) \<and>
      sum_list (map value_or_zero participants) = totalAmount \<longrightarrow>
        sum_list (map ResolvedSplit.amount shares) = totalAmount)"
proof (intro impI)
  assume a: "validateSplitInput splitType totalAmount participants = [] \<and>
   resolveSplits totalAmount splitType participants payerId = Inr shares"
  then have v: "validateSplitInput splitType totalAmount participants = []"
      "resolveSplits totalAmount splitType participants payerId = Inr shares"
    by simp_all
  note p = validate_nil_positive [OF v(1)]
  show "(splitType = EQUAL \<longrightarrow> sum_list (map ResolvedSplit.amount shares) = totalAmount) \<and>
     (splitType = PERCENTAGE \<and> sum_list (map value_or_zero participants) \<le> 100 \<longrightarrow>
        sum_list (map ResolvedSplit.amount shares) = totalAmount) \<and>
     (splitType = EXACT \<and> (\<forall>p\<in>set participants. whole_cents (value_or_zero p)) \<and>
      sum_list (map value_or_zero participants) = totalAmount \<longrightarrow>
        sum_list (map ResolvedSplit.amount shares) = totalAmount)"
  proof (intro conjI impI)
    assume "splitType = EQUAL"
    with v(2) p(1) have "shares = resolveEqualSplit totalAmount participants"
      by (simp add: resolveSplits_def)
    then show "sum_list (map ResolvedSplit.amount shares) = totalAmount"
      using sum_resolveEqualSplit [OF p(1)] by simp
  next
    assume h: "splitType = PERCENTAGE \<and> sum_list (map value_or_zero participants) \<le> 100"
    with v(2) p(1) have "resolvePercentageSplit totalAmount participants = Inr shares"
      by (simp add: resolveSplits_def)
    then show "sum_list (map ResolvedSplit.amount shares) = totalAmount"
      using sum_percentage [OF p(1) p(2)] h by blast
  next
    assume h: "splitType = EXACT \<and> (\<forall>p\<in>set participants. whole_cents (value_or_zero p)) \<and>
      sum_list (map value_or_zero participants) = totalAmount"
    with v(2) p(1) have "resolveExactSplit totalAmount participants = Inr shares"
      by (simp add: resolveSplits_def)
    then show "sum_list (map ResolvedSplit.amount shares) = totalAmount"
      using sum_exact h by blast
  qed
qed

theorem accepted_shares_sum_witness:
  "validateSplitInput EQUAL 100
     [\<lparr>SplitInput.userId = ''A'', val = None\<rparr>,
      \<lparr>SplitInput.userId = ''B'', val = None\<rparr>,
      \<lparr>SplitInput.userId = ''C'', val = None\<rparr>] = [] \<and>
   resolveSplits 100 EQUAL
     [\<lparr>SplitInput.userId = ''A'', val = None\<rparr>,
      \<lparr>SplitInput.userId = ''B'', val = None\<rparr>,
      \<lparr>SplitInput.userId = ''C'', val = None\<rparr>] ''A'' =
   Inr [\<lparr>ResolvedSplit.userId = ''A'', ResolvedSplit.amount = 3334 / 100\<rparr>,
      \<lparr>ResolvedSplit.userId = ''B'', ResolvedSplit.amount = 3333 / 100\<rparr>,
      \<lparr>ResolvedSplit.userId = ''C'', ResolvedSplit.amount = 3333 / 100\<rparr>] \<and>
   sum_list (map ResolvedSplit.amount
     [\<lparr>ResolvedSplit.userId = ''A'', ResolvedSplit.amount = 3334 / 100\<rparr>,
      \<lparr>ResolvedSplit.userId = ''B'', ResolvedSplit.amount = 3333 / 100\<rparr>,
      \<lparr>ResolvedSplit.userId = ''C'', ResolvedSplit.amount = 3333 / 100\<rparr>]) = 100 \<and>
   validateSplitInput PERCENTAGE 10
     [\<lparr>SplitInput.userId = ''A'', val = Some (3333 / 100)\<rparr>,
      \<lparr>SplitInput.userId = ''B'', val = Some (3333 / 100)\<rparr>,
      \<lparr>SplitInput.userId = ''C'', val = Some (3334 / 100)\<rparr>] = [] \<and>
   resolveSplits 10 PERCENTAGE
     [\<lparr>SplitInput.userId = ''A'', val = Some (3333 / 100)\<rparr>,
      \<lparr>SplitInput.userId = ''B'', val = Some (3333 / 100)\<rparr>,
      \<lparr>SplitInput.userId = ''C'', val = Some (3334 / 100)\<rparr>] ''A'' =
   Inr [\<lparr>ResolvedSplit.userId = ''A'', ResolvedSplit.amount = 334 / 100\<rparr>,
      \<lparr>ResolvedSplit.userId = ''B'', ResolvedSplit.amount = 333 / 100\<rparr>,
      \<lparr>ResolvedSplit.userId = ''C'', ResolvedSplit.amount = 333 / 100\<rparr>] \<and>
   sum_list (map value_or_zero
     [\<lparr>SplitInput.userId = ''A'', val = Some (3333 / 100)\<rparr>,
      \<lparr>SplitInput.userId = ''B'', val = Some (3333 / 100)\<rparr>,
      \<lparr>SplitInput.userId = ''C'', val = Some (3334 / 100)\<rparr>]) \<le> 100 \<and>
   sum_list (map ResolvedSplit.amount
     [\<lparr>ResolvedSplit.userId = ''A'', ResolvedSplit.amount = 334 / 100\<rparr>,
      \<lparr>ResolvedSplit.userId = ''B'', ResolvedSplit.amount = 333 / 100\<rparr>,
      \<lparr>ResolvedSplit.userId = ''C'', ResolvedSplit.amount = 333 / 100\<rparr>]) = 10 \<and>
   validateSplitInput EXACT 100
     [\<lparr>SplitInput.userId = ''A'', val = Some 60\<rparr>,
      \<lparr>SplitInput.userId = ''B'', val = Some 40\<rparr>] = [] \<and>
   resolveSplits 100 EXACT
     [\<lparr>SplitInput.userId = ''A'', val = Some 60\<rparr>,
      \<lparr>SplitInput.userId = ''B'', val = Some 40\<rparr>] ''A'' =
   Inr [\<lparr>ResolvedSplit.userId = ''A'', ResolvedSplit.amount = 60\<rparr>,
      \<lparr>ResolvedSplit.userId = ''B'', ResolvedSplit.amount = 40\<rparr>] \<and>
   whole_cents 60 \<and> whole_cents 40 \<and>
   sum_list (map ResolvedSplit.amount
     [\<lparr>ResolvedSplit.userId = ''A'', ResolvedSplit.amount = 60\<rparr>,
      \<lparr>ResolvedSplit.userId = ''B'', ResolvedSplit.amount = 40\<rparr>]) = 100"
proof -
  let ?e = "[\<lparr>SplitInput.userId = ''A'', val = None\<rparr>,
      \<lparr>SplitInput.userId = ''B'', val = None\<rparr>,
      \<lparr>SplitInput.userId = ''C'', val = None\<rparr>]"
  let ?es = "[\<lparr>ResolvedSplit.userId = ''A'', ResolvedSplit.amount = 3334 / 100\<rparr>,
      \<lparr>ResolvedSplit.userId = ''B'', ResolvedSplit.amount = 3333 / 100\<rparr>,
      \<lparr>ResolvedSplit.userId = ''C'', ResolvedSplit.amount = 3333 / 100\<rparr>]"
  let ?p = "[\<lparr>SplitInput.userId = ''A'', val = Some (3333 / 100)\<rparr>,
      \<lparr>SplitInput.userId = ''B'', val = Some (3333 / 100)\<rparr>,
      \<lparr>SplitInput.userId = ''C'', val = Some (3334 / 100)\<rparr>]"
  let ?ps = "[\<lparr>ResolvedSplit.userId = ''A'', ResolvedSplit.amount = 334 / 100\<rparr>,
      \<lparr>ResolvedSplit.userId = ''B'', ResolvedSplit.amount = 333 / 100\<rparr>,
      \<lparr>ResolvedSplit.userId = ''C'', ResolvedSplit.amount = 333 / 100\<rparr>]"
  let ?x = "[\<lparr>SplitInput.userId = ''A'', val = Some 60\<rparr>,
      \<lparr>SplitInput.userId = ''B'', val = Some 40\<rparr>]"
  let ?xs = "[\<lparr>ResolvedSplit.userId = ''A'', ResolvedSplit.amount = 60\<rparr>,
      \<lparr>ResolvedSplit.userId = ''B'', ResolvedSplit.amount = 40\<rparr>]"
  have ve: "validateSplitInput EQUAL 100 ?e = []" by code_simp
  have e: "resolveSplits 100 EQUAL ?e ''A'' = Inr ?es" by code_simp
  have vp: "validateSplitInput PERCENTAGE 10 ?p = []" by code_simp
  have p: "resolveSplits 10 PERCENTAGE ?p ''A'' = Inr ?ps" by code_simp
  have pl: "sum_list (map value_or_zero ?p) \<le> 100" by code_simp
  have vx: "validateSplitInput EXACT 100 ?x = []" by code_simp
  have x: "resolveSplits 100 EXACT ?x ''A'' = Inr ?xs" by code_simp
  have w: "whole_cents 60" "whole_cents 40" by code_simp+
  have xl: "sum_list (map value_or_zero ?x) = 100" by code_simp
  have xw: "\<forall>p\<in>set ?x. whole_cents (value_or_zero p)"
    using w by (simp add: value_or_zero_def)
  have ce: "sum_list (map ResolvedSplit.amount ?es) = 100"
    using accepted_shares_sum [of EQUAL 100 ?e "''A''" ?es] ve e by blast
  have cp: "sum_list (map ResolvedSplit.amount ?ps) = 10"
    using accepted_shares_sum [of PERCENTAGE 10 ?p "''A''" ?ps] vp p pl by blast
  have cx: "sum_list (map ResolvedSplit.amount ?xs) = 100"
    using accepted_shares_sum [of EXACT 100 ?x "''A''" ?xs] vx x xw xl by blast
  from ve e ce vp p pl cp vx x w cx show ?thesis by blast
qed

text \<open>
  Within the tolerance of 0.01 the shares need not sum to the total. The exact values
  50.005 and 49.995 of the repository's own tolerance test pass the validator and the
  resolver for a total of 100 and resolve to 50.01 and 50.00; the percentages 50.005 and
  50 pass both for a total of 1000 and resolve to 500.05 and 500.00.
\<close>

theorem accepted_shares_sum_counterexample:
  "validateSplitInput EXACT 100
     [\<lparr>SplitInput.userId = ''user1'', val = Some (50005 / 1000)\<rparr>,
      \<lparr>SplitInput.userId = ''user2'', val = Some (49995 / 1000)\<rparr>] = [] \<and>
   resolveSplits 100 EXACT
     [\<lparr>SplitInput.userId = ''user1'', val = Some (50005 / 1000)\<rparr>,
      \<lparr>SplitInput.userId = ''user2'', val = Some (49995 / 1000)\<rparr>] ''user1'' =
   Inr [\<lparr>ResolvedSplit.userId = ''user1'', ResolvedSplit.amount = 5001 / 100\<rparr>,
      \<lparr>ResolvedSplit.userId = ''user2'', ResolvedSplit.amount = 50\<rparr>] \<and>
   sum_list (map ResolvedSplit.amount
     [\<lparr>ResolvedSplit.userId = ''user1'', ResolvedSplit.amount = 5001 / 100\<rparr>,
      \<lparr>ResolvedSplit.userId = ''user2'', ResolvedSplit.amount = 50\<rparr>]) \<noteq> 100 \<and>
   validateSplitInput PERCENTAGE 1000
     [\<lparr>SplitInput.userId = ''user1'', val = Some (50005 / 1000)\<rparr>,
      \<lparr>SplitInput.userId = ''user2'', val = Some 50\<rparr>] = [] \<and>
   resolveSplits 1000 PERCENTAGE
     [\<lparr>SplitInput.userId = ''user1'', val = Some (50005 / 1000)\<rparr>,
      \<lparr>SplitInput.userId = ''user2'', val = Some 50\<rparr>] ''user1'' =
   Inr [\<lparr>ResolvedSplit.userId = ''user1'', ResolvedSplit.amount = 50005 / 100\<rparr>,
      \<lparr>ResolvedSplit.userId = ''user2'', ResolvedSplit.amount = 500\<rparr>] \<and>
   sum_list (map ResolvedSplit.amount
     [\<lparr>ResolvedSplit.userId = ''user1'', ResolvedSplit.amount = 50005 / 100\<rparr>,
      \<lparr>ResolvedSplit.userId = ''user2'', ResolvedSplit.amount = 500\<rparr>]) \<noteq> 1000"
  by code_simp

section \<open>The loop of the simplifier\<close>

lemma drop_update_at: "i < length xs \<Longrightarrow> drop i (xs[i := x]) = x # drop (Suc i) xs"
  by (simp add: upd_conv_take_nth_drop)

lemma drop_at: "i < length xs \<Longrightarrow> drop i xs = xs ! i # drop (Suc i) xs"
  by (simp add: Cons_nth_drop_Suc)

lemma loop_body_fields:
  assumes "loop_cond s"
  defines "c \<equiv> creditors s ! creditorIdx s" and "d \<equiv> debtors s ! debtorIdx s"
  defines "t \<equiv> min (balance c) (balance d)"
  shows "settlements (loop_body s) = settlements s @
           (if t > 0 then [\<lparr>fromUserId = UserBalance.userId d, toUserId = UserBalance.userId c,
                             Settlement.amount = toDecimalPlaces 2 ROUND_HALF_UP t\<rparr>] else [])"
    and "drop (creditorIdx (loop_body s)) (creditors (loop_body s)) =
           (if balance c - t \<le> 0 then drop (Suc (creditorIdx s)) (creditors s)
            else c\<lparr>balance := balance c - t\<rparr> # drop (Suc (creditorIdx s)) (creditors s))"
    and "drop (debtorIdx (loop_body s)) (debtors (loop_body s)) =
           (if balance d - t \<le> 0 then drop (Suc (debtorIdx s)) (debtors s)
            else d\<lparr>balance := balance d - t\<rparr> # drop (Suc (debtorIdx s)) (debtors s))"
  using assms(1) unfolding c_def d_def t_def
  by (simp_all add: loop_body_def loop_cond_def Let_def drop_update_at)

lemma simplify_loop_pairings:
  "simplify_loop s =
   settlements s @ pairings (drop (creditorIdx s) (creditors s)) (drop (debtorIdx s) (debtors s))"
proof (induction s rule: simplify_loop.induct)
  case (1 s)
  show ?case
  proof (cases "loop_cond s")
    case False
    then have "drop (creditorIdx s) (creditors s) = [] \<or> drop (debtorIdx s) (debtors s) = []"
      by (auto simp: loop_cond_def)
    then have "pairings (drop (creditorIdx s) (creditors s)) (drop (debtorIdx s) (debtors s)) = []"
      by (cases "drop (creditorIdx s) (creditors s)") auto
    with False show ?thesis by (simp add: simplify_loop.simps [of s])
  next
    case True
    then have dc: "drop (creditorIdx s) (creditors s) =
                    creditors s ! creditorIdx s # drop (Suc (creditorIdx s)) (creditors s)"
      and dd: "drop (debtorIdx s) (debtors s) =
                    debtors s ! debtorIdx s # drop (Suc (debtorIdx s)) (debtors s)"
      by (simp_all add: loop_cond_def drop_at)
    have "simplify_loop s = simplify_loop (loop_body s)"
      using True by (simp add: simplify_loop.simps [of s])
    also have "\<dots> = settlements (loop_body s) @
        pairings (drop (creditorIdx (loop_body s)) (creditors (loop_body s)))
                 (drop (debtorIdx (loop_body s)) (debtors (loop_body s)))"
      using "1.IH" [OF True] .
    also have "\<dots> = settlements s @
        pairings (drop (creditorIdx s) (creditors s)) (drop (debtorIdx s) (debtors s))"
      unfolding loop_body_fields [OF True] dc dd pairings.simps(3) Let_def
      by simp
    finally show ?thesis .
  qed
qed

section \<open>Whole cents\<close>

lemma whole_cents_iff: "whole_cents x \<longleftrightarrow> (\<exists>k::int. x * 100 = of_int k)"
  unfolding whole_cents_def by (metis floor_of_int)

lemma whole_cents_diff: "whole_cents a \<Longrightarrow> whole_cents b \<Longrightarrow> whole_cents (a - b)"
proof -
  assume "whole_cents a" "whole_cents b"
  then obtain k l :: int where "a * 100 = of_int k" "b * 100 = of_int l"
    unfolding whole_cents_iff by blast
  then have "(a - b) * 100 = of_int (k - l)" by (simp add: algebra_simps)
  then show ?thesis unfolding whole_cents_iff by blast
qed

lemma whole_cents_uminus: "whole_cents a \<Longrightarrow> whole_cents (- a)"
  using whole_cents_diff [of 0 a] by (simp add: whole_cents_def)

lemma whole_cents_min: "whole_cents a \<Longrightarrow> whole_cents b \<Longrightarrow> whole_cents (min a b)"
  by (simp add: min_def)

section \<open>The transfers of a pairing\<close>

lemma pairings_users:
  "s \<in> set (pairings cs ds) \<Longrightarrow>
   fromUserId s \<in> UserBalance.userId ` set ds \<and> toUserId s \<in> UserBalance.userId ` set cs"
proof (induction cs ds rule: pairings.induct)
  case (3 c cs d ds)
  let ?t = "min (balance c) (balance d)"
  let ?cs = "if balance c - ?t \<le> 0 then cs else c\<lparr>balance := balance c - ?t\<rparr> # cs"
  let ?ds = "if balance d - ?t \<le> 0 then ds else d\<lparr>balance := balance d - ?t\<rparr> # ds"
  from "3.prems" consider
      (new) "s = \<lparr>fromUserId = UserBalance.userId d, toUserId = UserBalance.userId c,
                   Settlement.amount = toDecimalPlaces 2 ROUND_HALF_UP ?t\<rparr>"
    | (rest) "s \<in> set (pairings ?cs ?ds)"
    by (auto simp: pairings.simps(3) Let_def split: if_splits)
  then show ?case
  proof cases
    case new
    then show ?thesis by simp
  next
    case rest
    from "3.IH" [OF refl rest]
    have "fromUserId s \<in> UserBalance.userId ` set ?ds \<and> toUserId s \<in> UserBalance.userId ` set ?cs" .
    then show ?thesis by (auto split: if_splits)
  qed
qed simp_all

lemma pairings_length:
  "length (pairings cs ds) \<le> (if cs = [] \<or> ds = [] then 0 else length cs + length ds - 1)"
proof (induction cs ds rule: pairings.induct)
  case (3 c cs d ds)
  let ?t = "min (balance c) (balance d)"
  let ?cs = "if balance c - ?t \<le> 0 then cs else c\<lparr>balance := balance c - ?t\<rparr> # cs"
  let ?ds = "if balance d - ?t \<le> 0 then ds else d\<lparr>balance := balance d - ?t\<rparr> # ds"
  have step: "balance c - ?t \<le> 0 \<or> balance d - ?t \<le> 0" by (simp add: min_def)
  have "length (pairings (c # cs) (d # ds)) \<le> 1 + length (pairings ?cs ?ds)"
    by (simp add: pairings.simps(3) Let_def)
  also have "length (pairings ?cs ?ds) \<le>
      (if ?cs = [] \<or> ?ds = [] then 0 else length ?cs + length ?ds - 1)"
    using "3.IH" [OF refl] .
  also have "\<dots> \<le> length cs + length ds"
    using step by (auto split: if_splits)
  finally show ?case by simp
qed simp_all

lemma pairings_length_if:
  "length (pairings cs ds) \<le>
     (if length cs = 0 \<or> length ds = 0 then 0 else length cs + length ds - 1)"
  using pairings_length [of cs ds] by simp

lemma pairings_amount_pos:
  assumes "\<forall>b\<in>set cs. whole_cents (balance b)" "\<forall>b\<in>set ds. whole_cents (balance b)"
    and "s \<in> set (pairings cs ds)"
  shows "0 < Settlement.amount s"
  using assms
proof (induction cs ds rule: pairings.induct)
  case (3 c cs d ds)
  let ?t = "min (balance c) (balance d)"
  let ?cs = "if balance c - ?t \<le> 0 then cs else c\<lparr>balance := balance c - ?t\<rparr> # cs"
  let ?ds = "if balance d - ?t \<le> 0 then ds else d\<lparr>balance := balance d - ?t\<rparr> # ds"
  have wt: "whole_cents ?t"
    using "3.prems"(1,2) by (simp add: whole_cents_min)
  from "3.prems"(3) consider
      (new) "0 < ?t" "s = \<lparr>fromUserId = UserBalance.userId d, toUserId = UserBalance.userId c,
                   Settlement.amount = toDecimalPlaces 2 ROUND_HALF_UP ?t\<rparr>"
    | (rest) "s \<in> set (pairings ?cs ?ds)"
    by (auto simp: pairings.simps(3) Let_def split: if_splits)
  then show ?case
  proof cases
    case new
    then show ?thesis
      by (simp add: toDecimalPlaces_half_up whole_cents_round2 [OF wt])
  next
    case rest
    have "\<forall>b\<in>set ?cs. whole_cents (balance b)"
      using "3.prems"(1,2) wt by (auto simp: whole_cents_diff)
    moreover have "\<forall>b\<in>set ?ds. whole_cents (balance b)"
      using "3.prems"(1,2) wt by (auto simp: whole_cents_diff)
    ultimately show ?thesis using "3.IH" [OF refl] rest by blast
  qed
qed simp_all

lemma pairings_sum:
  assumes "\<forall>b\<in>set cs. whole_cents (balance b) \<and> 0 < balance b"
    and "\<forall>b\<in>set ds. whole_cents (balance b) \<and> 0 < balance b"
  shows "sum_list (map Settlement.amount (pairings cs ds)) =
         min (sum_list (map balance cs)) (sum_list (map balance ds))"
  using assms
proof (induction cs ds rule: pairings.induct)
  case (1 ds)
  then have "0 \<le> sum_list (map balance ds)"
    by (intro sum_list_nonneg) auto
  then show ?case by simp
next
  case (2 c cs)
  then have "0 \<le> sum_list (map balance (c # cs))"
    by (intro sum_list_nonneg) auto
  then show ?case by simp
next
  case (3 c cs d ds)
  let ?t = "min (balance c) (balance d)"
  let ?cs = "if balance c - ?t \<le> 0 then cs else c\<lparr>balance := balance c - ?t\<rparr> # cs"
  let ?ds = "if balance d - ?t \<le> 0 then ds else d\<lparr>balance := balance d - ?t\<rparr> # ds"
  have wt: "whole_cents ?t" and pt: "0 < ?t"
    using "3.prems" by (simp_all add: whole_cents_min)
  have c: "\<forall>b\<in>set ?cs. whole_cents (balance b) \<and> 0 < balance b"
    using "3.prems" wt by (auto simp: whole_cents_diff)
  have d: "\<forall>b\<in>set ?ds. whole_cents (balance b) \<and> 0 < balance b"
    using "3.prems" wt by (auto simp: whole_cents_diff)
  have ih: "sum_list (map Settlement.amount (pairings ?cs ?ds)) =
        min (sum_list (map balance ?cs)) (sum_list (map balance ?ds))"
    using "3.IH" [OF refl c d] .
  have sc: "sum_list (map balance ?cs) = sum_list (map balance (c # cs)) - ?t"
    by (auto simp: min_def)
  have sd: "sum_list (map balance ?ds) = sum_list (map balance (d # ds)) - ?t"
    by (auto simp: min_def)
  have "sum_list (map Settlement.amount (pairings (c # cs) (d # ds))) =
        ?t + sum_list (map Settlement.amount (pairings ?cs ?ds))"
    using pt by (simp add: pairings.simps(3) Let_def toDecimalPlaces_half_up whole_cents_round2 [OF wt])
  also have "\<dots> = ?t + min (sum_list (map balance (c # cs)) - ?t) (sum_list (map balance (d # ds)) - ?t)"
    unfolding ih sc sd ..
  also have "\<dots> = min (sum_list (map balance (c # cs))) (sum_list (map balance (d # ds)))"
    by (simp add: min_def)
  finally show ?case .
qed

section \<open>Partition and sorting\<close>

lemma set_sortByBalance: "set (sortByBalance xs) = set xs"
  by (simp add: sortByBalance_def)

lemma length_sortByBalance: "length (sortByBalance xs) = length xs"
  by (simp add: sortByBalance_def)

lemma sum_list_insort_key:
  fixes f :: "'a \<Rightarrow> rat"
  shows "sum_list (map f (insort_key g x xs)) = f x + sum_list (map f xs)"
  by (induction xs) simp_all

lemma sum_list_sort_key:
  fixes f :: "'a \<Rightarrow> rat"
  shows "sum_list (map f (sort_key g xs)) = sum_list (map f xs)"
  by (induction xs) (simp_all add: sum_list_insort_key)

lemma sum_sortByBalance: "sum_list (map balance (sortByBalance xs)) = sum_list (map balance xs)"
  by (simp add: sortByBalance_def sum_list_sort_key)

lemma creditors_of_eq: "creditors_of bs = filter (\<lambda>b. 0 < balance b) bs"
proof -
  have "(\<lambda>b. \<lparr>UserBalance.userId = UserBalance.userId b, balance = balance b\<rparr>) =
        (\<lambda>b::UserBalance. b)"
    by (rule ext) simp
  then show ?thesis by (simp add: creditors_of_def)
qed

lemma debtors_of_eq:
  "debtors_of bs = map (\<lambda>b. b\<lparr>balance := \<bar>balance b\<bar>\<rparr>) (filter (\<lambda>b. balance b < 0) bs)"
proof -
  have "(\<lambda>b. \<not> 0 < balance b \<and> balance b < 0) = (\<lambda>b::UserBalance. balance b < 0)"
    by auto
  then show ?thesis by (simp add: debtors_of_def)
qed

lemma simplifyBalances_pairings:
  "simplifyBalances bs =
   pairings (sortByBalance (creditors_of bs)) (sortByBalance (debtors_of bs))"
  by (simp add: simplifyBalances_def simplify_loop_pairings)

lemma length_creditors_of: "length (creditors_of bs) = length (filter (\<lambda>b. 0 < balance b) bs)"
  by (simp add: creditors_of_eq)

lemma length_debtors_of: "length (debtors_of bs) = length (filter (\<lambda>b. balance b < 0) bs)"
  by (simp add: debtors_of_eq)

lemma sum_debtors_of:
  "sum_list (map balance (debtors_of bs)) =
   - sum_list (map balance (filter (\<lambda>b. balance b < 0) bs))"
  unfolding debtors_of_eq by (induction bs) simp_all

lemma sum_balance_split:
  "sum_list (map balance bs) =
   sum_list (map balance (filter (\<lambda>b. 0 < balance b) bs)) +
   sum_list (map balance (filter (\<lambda>b. balance b < 0) bs))"
  by (induction bs) auto

section \<open>The simplifier\<close>

lemma loop_body_progress:
  "loop_cond s \<Longrightarrow> loop_remaining (loop_body s) < loop_remaining s"
  by (auto simp: loop_cond_def loop_body_def loop_remaining_def Let_def min_def)

lemma simplify_loop_rel_step:
  "simplify_loop_rel y x \<Longrightarrow> loop_cond x \<and> y = loop_body x"
  by (erule simplify_loop_rel.cases) simp

lemma simplify_loop_terminates: "simplify_loop_dom s"
proof (induction s rule: measure_induct_rule [where f = loop_remaining])
  case (less s)
  show ?case
  proof (rule accpI)
    fix y
    assume "simplify_loop_rel y s"
    then have c: "loop_cond s" and y: "y = loop_body s"
      using simplify_loop_rel_step by blast+
    from c have "loop_remaining (loop_body s) < loop_remaining s"
      by (rule loop_body_progress)
    with less y show "simplify_loop_dom y" by simp
  qed
qed

text \<open>
  C8. \<open>simplifyBalances\<close> returns on every list of balances: every state of its loop is
  in the domain on which the recursion of \<open>simplify_loop\<close> ends, because each pass moves
  at least one cursor forward and the number of entries still ahead of the cursors
  falls. Every transfer
  goes from the user of an entry with a negative balance to the user of an entry with a
  positive balance; a user whose entries all have the balance zero is therefore neither
  the sender nor the receiver of any transfer.
\<close>

theorem simplify_total_ignores_zero:
  "simplify_loop_dom s \<and>
   (loop_cond s \<longrightarrow> loop_remaining (loop_body s) < loop_remaining s) \<and>
   (\<forall>t\<in>set (simplifyBalances balances).
      (\<exists>b\<in>set balances. balance b < 0 \<and> fromUserId t = UserBalance.userId b) \<and>
      (\<exists>b\<in>set balances. 0 < balance b \<and> toUserId t = UserBalance.userId b)) \<and>
   ((\<forall>b\<in>set balances. UserBalance.userId b = u \<longrightarrow> balance b = 0) \<longrightarrow>
      (\<forall>t\<in>set (simplifyBalances balances). fromUserId t \<noteq> u \<and> toUserId t \<noteq> u))"
proof -
  have progress: "loop_cond s \<longrightarrow> loop_remaining (loop_body s) < loop_remaining s"
    by (simp add: loop_body_progress)
  have dom: "simplify_loop_dom s"
    by (rule simplify_loop_terminates)
  have users: "\<forall>t\<in>set (simplifyBalances balances).
      (\<exists>b\<in>set balances. balance b < 0 \<and> fromUserId t = UserBalance.userId b) \<and>
      (\<exists>b\<in>set balances. 0 < balance b \<and> toUserId t = UserBalance.userId b)"
  proof
    fix t
    assume "t \<in> set (simplifyBalances balances)"
    then have "fromUserId t \<in> UserBalance.userId ` set (debtors_of balances) \<and>
               toUserId t \<in> UserBalance.userId ` set (creditors_of balances)"
      using pairings_users [of t "sortByBalance (creditors_of balances)"
                                 "sortByBalance (debtors_of balances)"]
      by (simp add: simplifyBalances_pairings set_sortByBalance)
    then show "(\<exists>b\<in>set balances. balance b < 0 \<and> fromUserId t = UserBalance.userId b) \<and>
      (\<exists>b\<in>set balances. 0 < balance b \<and> toUserId t = UserBalance.userId b)"
      by (auto simp: creditors_of_eq debtors_of_eq)
  qed
  have zero: "(\<forall>b\<in>set balances. UserBalance.userId b = u \<longrightarrow> balance b = 0) \<longrightarrow>
      (\<forall>t\<in>set (simplifyBalances balances). fromUserId t \<noteq> u \<and> toUserId t \<noteq> u)"
  proof (intro impI ballI)
    fix t
    assume z: "\<forall>b\<in>set balances. UserBalance.userId b = u \<longrightarrow> balance b = 0"
      and t: "t \<in> set (simplifyBalances balances)"
    from users t obtain b b' where
      b: "b \<in> set balances" "balance b < 0" "fromUserId t = UserBalance.userId b" and
      b': "b' \<in> set balances" "0 < balance b'" "toUserId t = UserBalance.userId b'"
      by blast
    from z b have "fromUserId t \<noteq> u" by auto
    moreover from z b' have "toUserId t \<noteq> u" by auto
    ultimately show "fromUserId t \<noteq> u \<and> toUserId t \<noteq> u" ..
  qed
  from dom progress users zero show ?thesis by blast
qed

theorem simplify_total_ignores_zero_witness:
  "loop_cond \<lparr>creditors = [\<lparr>UserBalance.userId = ''creditor'', balance = 50\<rparr>],
              debtors = [\<lparr>UserBalance.userId = ''debtor'', balance = 50\<rparr>],
              creditorIdx = 0, debtorIdx = 0, settlements = []\<rparr> \<and>
   loop_remaining (loop_body
             \<lparr>creditors = [\<lparr>UserBalance.userId = ''creditor'', balance = 50\<rparr>],
              debtors = [\<lparr>UserBalance.userId = ''debtor'', balance = 50\<rparr>],
              creditorIdx = 0, debtorIdx = 0, settlements = []\<rparr>)
     < loop_remaining
             \<lparr>creditors = [\<lparr>UserBalance.userId = ''creditor'', balance = 50\<rparr>],
              debtors = [\<lparr>UserBalance.userId = ''debtor'', balance = 50\<rparr>],
              creditorIdx = 0, debtorIdx = 0, settlements = []\<rparr> \<and>
   \<not> (\<exists>b\<in>set [\<lparr>UserBalance.userId = ''creditor'', balance = 50\<rparr>,
                 \<lparr>UserBalance.userId = ''neutral'', balance = 0\<rparr>,
                 \<lparr>UserBalance.userId = ''debtor'', balance = - 50\<rparr>].
         UserBalance.userId b = ''neutral'' \<and> balance b \<noteq> 0) \<and>
   simplifyBalances
     [\<lparr>UserBalance.userId = ''creditor'', balance = 50\<rparr>,
      \<lparr>UserBalance.userId = ''neutral'', balance = 0\<rparr>,
      \<lparr>UserBalance.userId = ''debtor'', balance = - 50\<rparr>] =
   [\<lparr>fromUserId = ''debtor'', toUserId = ''creditor'', Settlement.amount = 50\<rparr>] \<and>
   fromUserId \<lparr>fromUserId = ''debtor'', toUserId = ''creditor'', Settlement.amount = 50\<rparr>
     \<noteq> ''neutral'' \<and>
   toUserId \<lparr>fromUserId = ''debtor'', toUserId = ''creditor'', Settlement.amount = 50\<rparr>
     \<noteq> ''neutral''"
proof -
  let ?s = "\<lparr>creditors = [\<lparr>UserBalance.userId = ''creditor'', balance = 50\<rparr>],
              debtors = [\<lparr>UserBalance.userId = ''debtor'', balance = 50\<rparr>],
              creditorIdx = 0, debtorIdx = 0, settlements = []\<rparr>"
  let ?X = "[\<lparr>UserBalance.userId = ''creditor'', balance = 50\<rparr>,
      \<lparr>UserBalance.userId = ''neutral'', balance = 0\<rparr>,
      \<lparr>UserBalance.userId = ''debtor'', balance = - 50\<rparr>]"
  let ?T = "\<lparr>fromUserId = ''debtor'', toUserId = ''creditor'', Settlement.amount = 50\<rparr>"
  note inst = simplify_total_ignores_zero [of ?s ?X "''neutral''"]
  have lc: "loop_cond ?s" by (simp add: loop_cond_def)
  from inst lc have pr: "loop_remaining (loop_body ?s) < loop_remaining ?s" by blast
  have z: "\<forall>b\<in>set ?X. UserBalance.userId b = ''neutral'' \<longrightarrow> balance b = 0" by simp
  then have nz: "\<not> (\<exists>b\<in>set ?X. UserBalance.userId b = ''neutral'' \<and> balance b \<noteq> 0)" by blast
  have e: "simplifyBalances ?X = [?T]" by code_simp
  from inst z have "\<forall>t\<in>set (simplifyBalances ?X). fromUserId t \<noteq> ''neutral'' \<and> toUserId t \<noteq> ''neutral''"
    by blast
  then have c: "fromUserId ?T \<noteq> ''neutral''" "toUserId ?T \<noteq> ''neutral''"
    unfolding e by (blast intro: list.set_intros)+
  from lc pr nz e c show ?thesis by blast
qed

text \<open>
  C7, as amended. When every balance is an amount of whole cents, every transfer of
  \<open>simplifyBalances\<close> has a strictly positive amount.
\<close>

theorem transfers_positive:
  "(\<forall>b\<in>set balances. whole_cents (balance b)) \<longrightarrow>
   (\<forall>t\<in>set (simplifyBalances balances). 0 < Settlement.amount t)"
proof (intro impI ballI)
  fix t
  assume w: "\<forall>b\<in>set balances. whole_cents (balance b)"
    and t: "t \<in> set (simplifyBalances balances)"
  have c: "\<forall>b\<in>set (sortByBalance (creditors_of balances)). whole_cents (balance b)"
    using w by (auto simp: set_sortByBalance creditors_of_eq)
  have d: "\<forall>b\<in>set (sortByBalance (debtors_of balances)). whole_cents (balance b)"
    using w by (auto simp: set_sortByBalance debtors_of_eq whole_cents_uminus)
  from pairings_amount_pos [OF c d] t show "0 < Settlement.amount t"
    by (simp add: simplifyBalances_pairings)
qed

theorem transfers_positive_witness:
  "whole_cents (- 8) \<and> whole_cents 5 \<and> whole_cents 3 \<and>
   simplifyBalances
     [\<lparr>UserBalance.userId = ''A'', balance = - 8\<rparr>,
      \<lparr>UserBalance.userId = ''B'', balance = 5\<rparr>,
      \<lparr>UserBalance.userId = ''C'', balance = 3\<rparr>] =
   [\<lparr>fromUserId = ''A'', toUserId = ''B'', Settlement.amount = 5\<rparr>,
    \<lparr>fromUserId = ''A'', toUserId = ''C'', Settlement.amount = 3\<rparr>] \<and>
   0 < Settlement.amount \<lparr>fromUserId = ''A'', toUserId = ''B'', Settlement.amount = 5\<rparr> \<and>
   0 < Settlement.amount \<lparr>fromUserId = ''A'', toUserId = ''C'', Settlement.amount = 3\<rparr>"
proof -
  let ?X = "[\<lparr>UserBalance.userId = ''A'', balance = - 8\<rparr>,
      \<lparr>UserBalance.userId = ''B'', balance = 5\<rparr>,
      \<lparr>UserBalance.userId = ''C'', balance = 3\<rparr>]"
  let ?T1 = "\<lparr>fromUserId = ''A'', toUserId = ''B'', Settlement.amount = 5\<rparr>"
  let ?T2 = "\<lparr>fromUserId = ''A'', toUserId = ''C'', Settlement.amount = 3\<rparr>"
  have w: "whole_cents (- 8)" "whole_cents 5" "whole_cents 3" by code_simp+
  then have h: "\<forall>b\<in>set ?X. whole_cents (balance b)" by simp
  have e: "simplifyBalances ?X = [?T1, ?T2]" by code_simp
  from transfers_positive [of ?X] h
  have "\<forall>t\<in>set (simplifyBalances ?X). 0 < Settlement.amount t" by blast
  then have c: "0 < Settlement.amount ?T1" "0 < Settlement.amount ?T2"
    unfolding e by (blast intro: list.set_intros)+
  from w e c show ?thesis by blast
qed

text \<open>
  A credit and a debt of 0.004: the transfer passes the test on the amount before it is
  rounded and is emitted with the amount 0.00.
\<close>

theorem transfers_positive_counterexample:
  "simplifyBalances
     [\<lparr>UserBalance.userId = ''A'', balance = 4 / 1000\<rparr>,
      \<lparr>UserBalance.userId = ''B'', balance = - (4 / 1000)\<rparr>] =
   [\<lparr>fromUserId = ''B'', toUserId = ''A'', Settlement.amount = 0\<rparr>]"
  by code_simp

text \<open>
  C2, as amended. When every balance is an amount of whole cents and the balances sum to
  zero, the amounts of the transfers of \<open>simplifyBalances\<close> sum to the sum of the positive
  balances.
\<close>

theorem transfers_conserve:
  "(\<forall>b\<in>set balances. whole_cents (balance b)) \<and> sum_list (map balance balances) = 0 \<longrightarrow>
   sum_list (map Settlement.amount (simplifyBalances balances)) =
   sum_list (map balance (filter (\<lambda>b. 0 < balance b) balances))"
proof (intro impI, elim conjE)
  assume w: "\<forall>b\<in>set balances. whole_cents (balance b)"
    and z: "sum_list (map balance balances) = 0"
  let ?cs = "sortByBalance (creditors_of balances)"
  let ?ds = "sortByBalance (debtors_of balances)"
  have c: "\<forall>b\<in>set ?cs. whole_cents (balance b) \<and> 0 < balance b"
    using w by (auto simp: set_sortByBalance creditors_of_eq)
  have d: "\<forall>b\<in>set ?ds. whole_cents (balance b) \<and> 0 < balance b"
    using w by (auto simp: set_sortByBalance debtors_of_eq whole_cents_uminus)
  have sc: "sum_list (map balance ?cs) = sum_list (map balance (filter (\<lambda>b. 0 < balance b) balances))"
    by (simp add: sum_sortByBalance creditors_of_eq)
  have sd: "sum_list (map balance ?ds) = sum_list (map balance (filter (\<lambda>b. 0 < balance b) balances))"
    using z sum_balance_split [of balances] by (simp add: sum_sortByBalance sum_debtors_of)
  show "sum_list (map Settlement.amount (simplifyBalances balances)) =
        sum_list (map balance (filter (\<lambda>b. 0 < balance b) balances))"
    unfolding simplifyBalances_pairings pairings_sum [OF c d] sc sd by simp
qed

theorem transfers_conserve_witness:
  "whole_cents (- 8) \<and> whole_cents 5 \<and> whole_cents 3 \<and>
   sum_list (map balance
     [\<lparr>UserBalance.userId = ''A'', balance = - 8\<rparr>,
      \<lparr>UserBalance.userId = ''B'', balance = 5\<rparr>,
      \<lparr>UserBalance.userId = ''C'', balance = 3\<rparr>]) = 0 \<and>
   sum_list (map Settlement.amount (simplifyBalances
     [\<lparr>UserBalance.userId = ''A'', balance = - 8\<rparr>,
      \<lparr>UserBalance.userId = ''B'', balance = 5\<rparr>,
      \<lparr>UserBalance.userId = ''C'', balance = 3\<rparr>])) = 8"
proof -
  let ?X = "[\<lparr>UserBalance.userId = ''A'', balance = - 8\<rparr>,
      \<lparr>UserBalance.userId = ''B'', balance = 5\<rparr>,
      \<lparr>UserBalance.userId = ''C'', balance = 3\<rparr>]"
  have w: "whole_cents (- 8)" "whole_cents 5" "whole_cents 3" by code_simp+
  then have h: "\<forall>b\<in>set ?X. whole_cents (balance b)" by simp
  have z: "sum_list (map balance ?X) = 0" by simp
  have p: "sum_list (map balance (filter (\<lambda>b. 0 < balance b) ?X)) = 8" by simp
  from transfers_conserve [of ?X] h z
  have "sum_list (map Settlement.amount (simplifyBalances ?X)) =
        sum_list (map balance (filter (\<lambda>b. 0 < balance b) ?X))"
    by blast
  then have c: "sum_list (map Settlement.amount (simplifyBalances ?X)) = 8"
    unfolding p .
  from w z c show ?thesis by blast
qed

text \<open>
  A credit and a debt of 0.005 sum to zero; the one transfer is emitted with the rounded
  amount 0.01, not 0.005.
\<close>

theorem transfers_conserve_counterexample:
  "sum_list (map balance
     [\<lparr>UserBalance.userId = ''A'', balance = 5 / 1000\<rparr>,
      \<lparr>UserBalance.userId = ''B'', balance = - (5 / 1000)\<rparr>]) = 0 \<and>
   sum_list (map Settlement.amount (simplifyBalances
     [\<lparr>UserBalance.userId = ''A'', balance = 5 / 1000\<rparr>,
      \<lparr>UserBalance.userId = ''B'', balance = - (5 / 1000)\<rparr>])) = 1 / 100 \<and>
   sum_list (map balance (filter (\<lambda>b. 0 < balance b)
     [\<lparr>UserBalance.userId = ''A'', balance = 5 / 1000\<rparr>,
      \<lparr>UserBalance.userId = ''B'', balance = - (5 / 1000)\<rparr>])) = 5 / 1000"
  by code_simp

text \<open>
  C9, as amended. \<open>simplifyBalances\<close> emits no transfer when there is no creditor or no
  debtor, and otherwise at most as many transfers as there are creditors and debtors
  together, less one.
\<close>

theorem transfer_count_bound:
  "length (simplifyBalances balances) \<le>
     (if length (filter (\<lambda>b. 0 < balance b) balances) = 0 \<or>
         length (filter (\<lambda>b. balance b < 0) balances) = 0
      then 0
      else length (filter (\<lambda>b. 0 < balance b) balances) +
           length (filter (\<lambda>b. balance b < 0) balances) - 1)"
  using pairings_length_if [of "sortByBalance (creditors_of balances)"
                              "sortByBalance (debtors_of balances)"]
  unfolding simplifyBalances_pairings length_sortByBalance length_creditors_of length_debtors_of .

text \<open>
  One debtor of 8 and two creditors of 5 and 3, the repository's own test: two transfers,
  while the smaller of the two counts is one.
\<close>

theorem transfer_count_counterexample:
  "length (simplifyBalances
     [\<lparr>UserBalance.userId = ''A'', balance = - 8\<rparr>,
      \<lparr>UserBalance.userId = ''B'', balance = 5\<rparr>,
      \<lparr>UserBalance.userId = ''C'', balance = 3\<rparr>]) = 2 \<and>
   min (length (filter (\<lambda>b. 0 < balance b)
     [\<lparr>UserBalance.userId = ''A'', balance = - 8\<rparr>,
      \<lparr>UserBalance.userId = ''B'', balance = 5\<rparr>,
      \<lparr>UserBalance.userId = ''C'', balance = 3\<rparr>]))
       (length (filter (\<lambda>b. balance b < 0)
     [\<lparr>UserBalance.userId = ''A'', balance = - 8\<rparr>,
      \<lparr>UserBalance.userId = ''B'', balance = 5\<rparr>,
      \<lparr>UserBalance.userId = ''C'', balance = 3\<rparr>])) = 1"
  by code_simp

end
